theory Spec2Isabelle
  imports Main "HOL-Library.Char_ord" "HOL-Library.List_Lexorder" "HOL-Library.Multiset"
begin

section \<open>Python errors\<close>

text \<open>
  The exceptions that the modelled code can raise. A function that can raise returns a sum
  whose left injection carries the error.
\<close>

datatype py_error =
  IndexError | ValueError | TypeError | UnpicklingError
| FileNotFoundError | FileExistsError | IsADirectoryError | NotADirectoryError

text \<open>The errors that are instances of \<open>OSError\<close> (of which \<open>IOError\<close> is another name).\<close>

fun is_OSError :: "py_error \<Rightarrow> bool" where
  "is_OSError FileNotFoundError = True"
| "is_OSError FileExistsError = True"
| "is_OSError IsADirectoryError = True"
| "is_OSError NotADirectoryError = True"
| "is_OSError err = False"

section \<open>The embedder (mindmeld/models/embedder\_models.py)\<close>

subsection \<open>Backing store\<close>

text \<open>
  The constructor observes three things of the file at the cache path: whether it exists,
  its size, and what \<open>pickle.load\<close> makes of it (a dictionary, or an exception). A file is
  therefore a record of its size and of the outcome of unpickling it; the file system
  maps each path to the file there, \<open>None\<close> for a path that does not exist.
\<close>

record 'v cache_file =
  getsize :: nat
  pickle_load :: "py_error + (string \<rightharpoonup> 'v)"

type_synonym 'v files = "string \<rightharpoonup> 'v cache_file"

text \<open>
  The attributes of an \<open>Embedder\<close>. The field \<open>encode_calls\<close> is instrumentation: it lists
  the argument of every call of \<open>self.encode\<close>, oldest first, so that claims about how often
  and on what the encoder runs can be stated.
\<close>

record ('v, 'm) embedder =
  cache_path :: string
  cache :: "string \<rightharpoonup> 'v"
  model :: 'm
  encode_calls :: "string list list"

subsection \<open>Construction\<close>


subsection \<open>Clearing the cache\<close>

text \<open>\<open>Embedder.clear_cache\<close>: removes the cache file when it exists and assigns no attribute.\<close>

definition clear_cache ::
  "('v, 'm) embedder \<Rightarrow> 'v files \<Rightarrow> ('v, 'm) embedder \<times> 'v files" where
  "clear_cache e fs =
     (if fs (cache_path e) \<noteq> None then (e, fs(cache_path e := None)) else (e, fs))"

subsection \<open>Fetching encodings\<close>

text \<open>
  The loop \<open>for i, v in enumerate(cache_miss_indices)\<close> of \<open>get_encodings\<close>: \<open>i\<close> is the
  position reached, \<open>vs\<close> the indices still to visit. Reading \<open>model_encoded_text[i]\<close> past
  the end of the encoder's answer raises \<open>IndexError\<close>, with the cache as updated so far.
\<close>

fun fill ::
  "nat \<Rightarrow> nat list \<Rightarrow> string list \<Rightarrow> 'v list \<Rightarrow> 'v option list \<Rightarrow> (string \<rightharpoonup> 'v) \<Rightarrow>
     (py_error + 'v option list) \<times> (string \<rightharpoonup> 'v)" where
  "fill i [] text_to_encode model_encoded_text encoded c = (Inr encoded, c)"
| "fill i (v # vs) text_to_encode model_encoded_text encoded c =
     (if i < length model_encoded_text
      then fill (Suc i) vs text_to_encode model_encoded_text
             (encoded[v := Some (model_encoded_text ! i)])
             (c(text_to_encode ! i \<mapsto> model_encoded_text ! i))
      else (Inl IndexError, c))"

text \<open>
  \<open>Embedder.get_encodings\<close>, with the abstract \<open>self.encode\<close> as the parameter \<open>enc\<close>. The
  result pairs what the call returns (or raises) with the embedder afterwards.
\<close>

definition get_encodings ::
  "(string list \<Rightarrow> 'v list) \<Rightarrow> ('v, 'm) embedder \<Rightarrow> string list \<Rightarrow>
     (py_error + 'v option list) \<times> ('v, 'm) embedder" where
  "get_encodings enc e text_list =
     (let encoded = map (cache e) text_list;
          cache_miss_indices = filter (\<lambda>i. encoded ! i = None) [0..<length encoded];
          text_to_encode = map (\<lambda>i. text_list ! i) cache_miss_indices;
          model_encoded_text = enc text_to_encode;
          (res, c') = fill 0 cache_miss_indices text_to_encode model_encoded_text
                        encoded (cache e)
      in (res, e\<lparr>cache := c', encode_calls := encode_calls e @ [text_to_encode]\<rparr>))"

section \<open>The role classifier (mmworkbench/components/role\_classifier.py)\<close>

subsection \<open>Queries, entities and examples\<close>

text \<open>
  A processed query carries its text and its entities; each query entity wraps an entity
  with a type and a role, the role being \<open>None\<close> when the annotation gives none. The
  source reads them as \<open>entity.entity.type\<close> and \<open>entity.entity.role\<close>. A label is a role as
  read from an entity, so a list of labels can hold \<open>None\<close>.
\<close>

record entity =
  etype :: string
  role :: "string option"

record query_entity =
  entity :: entity

record processed_query =
  query :: string
  entities :: "query_entity list"

type_synonym example = "string \<times> query_entity list \<times> nat"

type_synonym label = "string option"

text \<open>
  A call of \<open>logger.error\<close>: the format string and the arguments it is given, which is what
  the logging record keeps.
\<close>

type_synonym log_call = "string \<times> string list"

text \<open>
  The grouping in which queries arrive (what \<open>_get_query_tree\<close> returns): for each domain,
  for each intent, a list of queries, in the iteration order of the dictionaries.
\<close>

type_synonym 'q query_tree = "(string \<times> (string \<times> 'q list) list) list"

text \<open>
  Modelled from the spec: \<open>ResourceLoader.flatten_query_tree\<close> is not among the sources;
  the specification describes it as flattening a grouped query structure into a flat
  sequence. The queries of every group are concatenated in iteration order.
\<close>

definition flatten_query_tree :: "'q query_tree \<Rightarrow> 'q list" where
  "flatten_query_tree query_tree =
     concat (map (\<lambda>(d, intent_queries). concat (map snd intent_queries)) query_tree)"

text \<open>Python's truth value of a role: \<open>None\<close> and the empty string are false.\<close>

definition truthy :: "string option \<Rightarrow> bool" where
  "truthy r = (case r of None \<Rightarrow> False | Some s \<Rightarrow> s \<noteq> [])"

text \<open>
  The two nested loops of \<open>_get_queries_and_labels\<close>: the example and the label appended
  for each entity of the classifier's type whose role is true, in order.
\<close>

definition query_examples :: "string \<Rightarrow> processed_query \<Rightarrow> (example \<times> label) list" where
  "query_examples entity_type q =
     map (\<lambda>(idx, en). ((query q, entities q, idx), role (entity en)))
       (filter (\<lambda>(idx, en). etype (entity en) = entity_type \<and> truthy (role (entity en)))
          (enumerate 0 (entities q)))"

text \<open>
  \<open>RoleClassifier._get_queries_and_labels\<close>, on the query tree that \<open>_get_query_tree\<close>
  returned. The first component lists the calls of \<open>logger.error\<close>, each as its format
  string and its arguments; the second is the pair returned, or the error raised. The empty
  tuples of the source are empty lists.
\<close>

definition get_queries_and_labels ::
  "string \<Rightarrow> processed_query query_tree \<Rightarrow>
     log_call list \<times> (py_error + example list \<times> label list)" where
  "get_queries_and_labels entity_type query_tree =
     (let queries = flatten_query_tree query_tree;
          pairs = concat (map (query_examples entity_type) queries);
          examples = map fst pairs;
          labels = map snd pairs;
          unique_labels = set labels
      in if card unique_labels = 1 then ([], Inr ([], []))
         else if None \<in> unique_labels then
           (let bad_examples = map fst (filter (\<lambda>(e, l). l = None) (zip examples labels))
            in (map (\<lambda>example.
                       (''Invalid entity annotation, expecting role in query %r'', [fst example]))
                  bad_examples,
                Inl ValueError))
         else ([], Inr (examples, labels)))"

subsection \<open>Fingerprints\<close>

text \<open>
  \<open>RoleClassifier._get_queries_and_labels_hash\<close>, on the tree of raw query strings; the
  resource loader's \<open>hash_queries\<close> is a parameter. Strings are ordered lexicographically
  by character code, as Python orders them.
\<close>

definition get_queries_and_labels_hash ::
  "(string list \<Rightarrow> string) \<Rightarrow> string query_tree \<Rightarrow> string" where
  "get_queries_and_labels_hash hash_queries query_tree =
     hash_queries (sort (flatten_query_tree query_tree))"

text \<open>
  Modelled from the spec: \<open>Classifier._get_model_hash\<close> is not among the sources; the
  specification describes the fingerprint as a digest over the resolved configuration and
  the content of the training queries, the queries entering through their sorted hash.
  The digest function is a parameter.
\<close>

definition get_model_hash ::
  "('c \<Rightarrow> string \<Rightarrow> string) \<Rightarrow> (string list \<Rightarrow> string) \<Rightarrow> 'c \<Rightarrow> string query_tree \<Rightarrow> string" where
  "get_model_hash digest hash_queries model_config query_tree =
     digest model_config (get_queries_and_labels_hash hash_queries query_tree)"

subsection \<open>Classifier state, the disk and its directories\<close>

text \<open>
  A file is either an artifact written by \<open>joblib.dump\<close> (the model and the roles) or a text
  file. The world outside the classifier is the files on the disk, the set of paths that
  are directories, the calls of \<open>logger.error\<close>, and the list of calls of the underlying
  model's \<open>fit\<close>, oldest first. Paths are POSIX paths and are compared as strings.
\<close>

datatype 'm disk_file = Artifact "'m option" "label set" | Text string

record 'm world =
  disk :: "string \<rightharpoonup> 'm disk_file"
  dirs :: "string set"
  error_log :: "log_call list"
  fit_calls :: "(example list \<times> label list) list"

text \<open>The attributes of a \<open>RoleClassifier\<close>; \<open>clf_model\<close> is \<open>self._model\<close>.\<close>

record ('m, 'c) role_classifier =
  domain :: string
  intent :: string
  entity_type :: string
  roles :: "label set"
  clf_model :: "'m option"
  config :: "'c option"
  hash :: "string option"
  ready :: bool
  dirty :: bool


text \<open>\<open>os.path.isdir\<close>; the empty path is no directory.\<close>

definition isdir :: "string set \<Rightarrow> string \<Rightarrow> bool" where
  "isdir ds p = (p \<noteq> [] \<and> p \<in> ds)"

text \<open>The directories above a path: its prefixes that end before a slash.\<close>

definition ancestors :: "string \<Rightarrow> string list" where
  "ancestors name =
     filter (\<lambda>q. q \<noteq> [] \<and> last q \<noteq> CHR ''/'')
       (map (\<lambda>i. take i name) (filter (\<lambda>i. name ! i = CHR ''/'') [0..<length name]))"

text \<open>
  \<open>os.makedirs\<close>: the empty name raises \<open>FileNotFoundError\<close>; a name that exists already
  raises \<open>FileExistsError\<close>; a file in the place of a directory above it raises
  \<open>NotADirectoryError\<close>; otherwise the directory and the missing ones above it are created.
  The result is the set of directories afterwards.
\<close>

definition makedirs ::
  "(string \<rightharpoonup> 'm disk_file) \<Rightarrow> string set \<Rightarrow> string \<Rightarrow> py_error + string set" where
  "makedirs d ds name =
     (if name = [] then Inl FileNotFoundError
      else if name \<in> ds \<or> d name \<noteq> None then Inl FileExistsError
      else if list_ex (\<lambda>a. d a \<noteq> None) (ancestors name) then Inl NotADirectoryError
      else Inr (ds \<union> set (ancestors name) \<union> {name}))"

text \<open>
  Opening a path as a file raises \<open>IsADirectoryError\<close> when the path is a directory or ends
  in a slash.
\<close>

definition is_directory_path :: "string set \<Rightarrow> string \<Rightarrow> bool" where
  "is_directory_path ds p = (p \<in> ds \<or> (p \<noteq> [] \<and> last p = CHR ''/''))"

text \<open>
  Modelled from the spec: \<open>Classifier._load_hash\<close> is not among the sources; the
  specification stores the fingerprint as a plain-text file at the artifact path followed
  by \<open>.hash\<close>, holding exactly the fingerprint, and speaks of no fingerprint record being
  found when there is none.
\<close>

definition load_hash :: "(string \<rightharpoonup> 'm disk_file) \<Rightarrow> string \<Rightarrow> string option" where
  "load_hash d model_path =
     (case d (model_path @ ''.hash'') of Some (Text s) \<Rightarrow> Some s | _ \<Rightarrow> None)"

subsection \<open>Loading, dumping, fitting, predicting\<close>

text \<open>
  \<open>joblib.load\<close> of a path: the model and the roles of the artifact stored there. A
  directory and a missing file raise their \<open>OSError\<close>; on a file that is no artifact the
  error raised depends on the file's content and is given by the parameter
  \<open>unpickle_error\<close>.
\<close>

definition joblib_load ::
  "(string \<Rightarrow> py_error) \<Rightarrow> 'm world \<Rightarrow> string \<Rightarrow> py_error + ('m option \<times> label set)" where
  "joblib_load unpickle_error w model_path =
     (if is_directory_path (dirs w) model_path then Inl IsADirectoryError
      else case disk w model_path of
             None \<Rightarrow> Inl FileNotFoundError
           | Some (Artifact m rs) \<Rightarrow> Inr (m, rs)
           | Some (Text s) \<Rightarrow> Inl (unpickle_error s))"

text \<open>
  Every operation returns what it raised (\<open>None\<close> when it returned normally), the classifier
  and the world afterwards. \<open>ClassifierConfig.from_model_config(model.config)\<close> is the
  parameter \<open>from_model_config\<close>. Registering gazetteers with a loaded model is opaque and
  leaves the model as it is.

  \<open>RoleClassifier.load\<close>: an \<open>OSError\<close> of \<open>joblib.load\<close> is caught, logged, and the method
  returns with the classifier as it was; any other error propagates.
\<close>

definition load ::
  "(string \<Rightarrow> py_error) \<Rightarrow> ('m \<Rightarrow> 'c) \<Rightarrow> ('m, 'c) role_classifier \<Rightarrow> 'm world \<Rightarrow> string \<Rightarrow>
     py_error option \<times> ('m, 'c) role_classifier \<times> 'm world" where
  "load unpickle_error from_model_config rc w model_path =
     (case joblib_load unpickle_error w model_path of
        Inl err \<Rightarrow>
          if is_OSError err
          then (None, rc, w\<lparr>error_log := error_log w @
                  [(''Unable to load %s. Pickle file cannot be read from %r'',
                    [''RoleClassifier'', model_path])]\<rparr>)
          else (Some err, rc, w)
      | Inr (m, rs) \<Rightarrow>
          (let rc1 = rc\<lparr>clf_model := m, roles := rs\<rparr>;
               rc2 = (case m of
                        None \<Rightarrow> rc1
                      | Some mdl \<Rightarrow> rc1\<lparr>config := Some (from_model_config mdl),
                                        hash := load_hash (disk w) model_path\<rparr>)
           in (None, rc2\<lparr>ready := True, dirty := False\<rparr>, w)))"

text \<open>
  The first step of \<open>RoleClassifier.dump\<close>: the folder is created unless it is a directory
  already. The result is the set of directories afterwards.
\<close>

definition make_folder ::
  "(string \<rightharpoonup> 'm disk_file) \<Rightarrow> string set \<Rightarrow> string \<Rightarrow> py_error + string set" where
  "make_folder d ds folder = (if \<not> isdir ds folder then makedirs d ds folder else Inr ds)"


text \<open>
  The test at the head of \<open>fit\<close>: a previous model path is given (and is not the empty
  string) and the hash stored there equals the new one.
\<close>

definition prior_match :: "(string \<rightharpoonup> 'm disk_file) \<Rightarrow> string option \<Rightarrow> string \<Rightarrow> bool" where
  "prior_match d previous_model_path new_hash =
     (case previous_model_path of
        None \<Rightarrow> False
      | Some p \<Rightarrow> p \<noteq> [] \<and> load_hash d p = Some new_hash)"

text \<open>
  \<open>RoleClassifier.fit\<close>. The parameters stand for what the source obtains from code outside
  it: \<open>mdl\<close> is \<open>create_model(model_config)\<close>, \<open>model_fit\<close> the model after
  \<open>initialize_resources\<close> and \<open>fit\<close> on the examples and labels, \<open>new_hash\<close> the value of
  \<open>self._get_model_hash(model_config, queries, label_set)\<close>, and \<open>query_tree\<close> the value of
  \<open>self._get_query_tree(queries, label_set)\<close>; \<open>unpickle_error\<close> and \<open>from_model_config\<close>
  are those of \<open>load\<close>.
\<close>

definition fit ::
  "(string \<Rightarrow> py_error) \<Rightarrow> 'm \<Rightarrow> ('m \<Rightarrow> example list \<Rightarrow> label list \<Rightarrow> 'm) \<Rightarrow> ('m \<Rightarrow> 'c) \<Rightarrow> string \<Rightarrow>
     ('m, 'c) role_classifier \<Rightarrow> 'm world \<Rightarrow> processed_query query_tree \<Rightarrow> string option \<Rightarrow>
     py_error option \<times> ('m, 'c) role_classifier \<times> 'm world" where
  "fit unpickle_error mdl model_fit from_model_config new_hash rc w query_tree
       previous_model_path =
     (if prior_match (disk w) previous_model_path new_hash
      then load unpickle_error from_model_config rc w
             (case previous_model_path of Some p \<Rightarrow> p | None \<Rightarrow> [])
      else
        (case get_queries_and_labels (entity_type rc) query_tree of
           (msgs, Inl err) \<Rightarrow> (Some err, rc, w\<lparr>error_log := error_log w @ msgs\<rparr>)
         | (msgs, Inr (examples, labels)) \<Rightarrow>
             (let w0 = w\<lparr>error_log := error_log w @ msgs\<rparr>;
                  (rc1, w1) =
                    (if examples \<noteq> []
                     then (let fitted = model_fit mdl examples labels
                           in (rc\<lparr>roles := set labels, clf_model := Some fitted,
                                   config := Some (from_model_config fitted)\<rparr>,
                               w0\<lparr>fit_calls := fit_calls w0 @ [(examples, labels)]\<rparr>))
                     else (rc, w0))
              in (None, rc1\<lparr>hash := Some new_hash, ready := True, dirty := True\<rparr>, w1))))"

text \<open>
  \<open>RoleClassifier.predict\<close>, with the underlying model's prediction for one example as the
  parameter \<open>model_predict\<close>. The result is the value returned (\<open>None\<close> for a bare
  \<open>return\<close>) or the error raised, and the world afterwards.
\<close>

definition predict ::
  "('m \<Rightarrow> example \<Rightarrow> py_error + string) \<Rightarrow> ('m, 'c) role_classifier \<Rightarrow> 'm world \<Rightarrow>
     string \<Rightarrow> query_entity list \<Rightarrow> nat \<Rightarrow> (py_error + string option) \<times> 'm world" where
  "predict model_predict rc w qry ents entity_index =
     (case clf_model rc of
        None \<Rightarrow>
          (Inr None, w\<lparr>error_log := error_log w @
             [(''You must fit or load the model before running predict'', [])]\<rparr>)
      | Some mdl \<Rightarrow>
          (case model_predict mdl (qry, ents, entity_index) of
             Inl err \<Rightarrow> (Inl err, w)
           | Inr r \<Rightarrow> (Inr (Some r), w)))"

section \<open>Example data\<close>

text \<open>
  A classifier for the entity type \<open>city\<close> that has never been trained, a world whose disk
  holds an artifact at \<open>models/m\<close> with the fingerprint \<open>F\<close> beside it, a world that holds
  only a fingerprint file \<open>m.hash\<close> outside any folder, and two training sets: one
  with two roles and an entity without a role, one where every entity of the type has the
  same role. The theorems below are instantiated on them.
\<close>

definition demo_entities :: "query_entity list" where
  "demo_entities =
     [\<lparr>entity = \<lparr>etype = ''city'', role = Some ''origin''\<rparr>\<rparr>,
      \<lparr>entity = \<lparr>etype = ''city'', role = Some ''destination''\<rparr>\<rparr>,
      \<lparr>entity = \<lparr>etype = ''city'', role = None\<rparr>\<rparr>]"

definition demo_tree :: "processed_query query_tree" where
  "demo_tree =
     [(''travel'', [(''book_flight'',
        [\<lparr>query = ''fly from sfo to jfk via ord'', entities = demo_entities\<rparr>])])]"

definition single_label_tree :: "processed_query query_tree" where
  "single_label_tree =
     [(''travel'', [(''book_flight'',
        [\<lparr>query = ''fly to jfk'',
          entities = [\<lparr>entity = \<lparr>etype = ''city'', role = Some ''destination''\<rparr>\<rparr>,
                      \<lparr>entity = \<lparr>etype = ''date'', role = Some ''departure''\<rparr>\<rparr>]\<rparr>,
         \<lparr>query = ''to lax please'',
          entities = [\<lparr>entity = \<lparr>etype = ''city'', role = Some ''destination''\<rparr>\<rparr>]\<rparr>])])]"

definition demo_classifier :: "(nat, nat) role_classifier" where
  "demo_classifier =
     \<lparr>domain = ''travel'', intent = ''book_flight'', entity_type = ''city'', roles = {},
      clf_model = None, config = None, hash = None, ready = False, dirty = False\<rparr>"

definition demo_world :: "nat world" where
  "demo_world =
     \<lparr>disk = [''models/m'' \<mapsto> Artifact (Some 5) {Some ''origin'', Some ''destination''},
              ''models/m.hash'' \<mapsto> Text ''F''],
      dirs = {''models''},
      error_log = [], fit_calls = []\<rparr>"


definition demo_fit :: "nat \<Rightarrow> example list \<Rightarrow> label list \<Rightarrow> nat" where
  "demo_fit mdl examples labels = mdl + length examples"

section \<open>Properties of the embedder\<close>

subsection \<open>The fill loop\<close>

lemma fill_length_encoded:
  "fill i vs tte met encoded c = (Inr out, c') \<Longrightarrow> length out = length encoded"
  by (induction vs arbitrary: i encoded c) (auto split: if_splits)

lemma fill_outside:
  "fill i vs tte met encoded c = (Inr out, c') \<Longrightarrow> j \<notin> set vs \<Longrightarrow> out ! j = encoded ! j"
  by (induction vs arbitrary: i encoded c) (auto split: if_splits)

lemma fill_returns:
  "i + length vs \<le> length met \<Longrightarrow> \<exists>out c'. fill i vs tte met encoded c = (Inr out, c')"
  by (induction vs arbitrary: i encoded c) auto

lemma fill_inside:
  "fill i vs tte met encoded c = (Inr out, c') \<Longrightarrow> distinct vs \<Longrightarrow>
   \<forall>v\<in>set vs. v < length encoded \<Longrightarrow> k < length vs \<Longrightarrow>
   out ! (vs ! k) = Some (met ! (i + k))"
proof (induction vs arbitrary: i encoded c k)
  case Nil
  then show ?case by simp
next
  case (Cons v vs)
  from Cons.prems(1) have lt: "i < length met" by (auto split: if_splits)
  with Cons.prems(1) have rec:
    "fill (Suc i) vs tte met (encoded[v := Some (met ! i)]) (c(tte ! i \<mapsto> met ! i)) = (Inr out, c')"
    by simp
  show ?case
  proof (cases k)
    case 0
    from Cons.prems(2) have "v \<notin> set vs" by simp
    with fill_outside [OF rec] have "out ! v = encoded[v := Some (met ! i)] ! v" by blast
    with Cons.prems(3) 0 show ?thesis by simp
  next
    case (Suc k')
    with Cons.prems have "out ! (vs ! k') = Some (met ! (Suc i + k'))"
      by (intro Cons.IH [OF rec]) auto
    with Suc show ?thesis by simp
  qed
qed

lemma filter_upt_nth:
  "i < n \<Longrightarrow> P i \<Longrightarrow> filter P [0..<n] ! length (filter P [0..<i]) = i"
proof -
  assume a: "i < n" "P i"
  then have "[0..<n] = [0..<i] @ i # [Suc i..<n]"
  proof -
    from a have "[0..<n] = [0..<i] @ [i..<n]" using upt_add_eq_append [of 0 i "n - i"] by simp
    moreover from a have "[i..<n] = i # [Suc i..<n]" by (simp add: upt_conv_Cons)
    ultimately show ?thesis by simp
  qed
  then have "filter P [0..<n] = filter P [0..<i] @ i # filter P [Suc i..<n]"
    using a by simp
  then show ?thesis by (simp add: nth_append)
qed

lemma map_nth_filter_upt:
  "map (\<lambda>i. xs ! i) (filter (\<lambda>i. Q (xs ! i)) [0..<length xs]) = filter Q xs"
proof (induction xs rule: rev_induct)
  case Nil
  then show ?case by simp
next
  case (snoc x xs)
  have "map (\<lambda>i. (xs @ [x]) ! i) (filter (\<lambda>i. Q ((xs @ [x]) ! i)) [0..<length xs])
        = map (\<lambda>i. xs ! i) (filter (\<lambda>i. Q (xs ! i)) [0..<length xs])"
  proof -
    have eq: "\<And>i. i \<in> set [0..<length xs] \<Longrightarrow> (xs @ [x]) ! i = xs ! i" by (simp add: nth_append)
    have "filter (\<lambda>i. Q ((xs @ [x]) ! i)) [0..<length xs] = filter (\<lambda>i. Q (xs ! i)) [0..<length xs]"
      by (rule filter_cong) (simp_all add: nth_append)
    moreover have "map (\<lambda>i. (xs @ [x]) ! i) (filter (\<lambda>i. Q (xs ! i)) [0..<length xs]) = map (\<lambda>i. xs ! i) (filter (\<lambda>i. Q (xs ! i)) [0..<length xs])"
      by (rule map_cong) (simp_all add: nth_append)
    ultimately show ?thesis by simp
  qed
  with snoc show ?case by (simp add: nth_append)
qed

lemma length_filter_upt_take:
  "i \<le> length xs \<Longrightarrow>
   length (filter (\<lambda>j. Q (xs ! j)) [0..<i]) = length (filter Q (take i xs))"
proof -
  assume a: "i \<le> length xs"
  have "filter Q (take i xs) = map (\<lambda>j. take i xs ! j) (filter (\<lambda>j. Q (take i xs ! j)) [0..<length (take i xs)])"
    by (rule map_nth_filter_upt [symmetric])
  also have "length \<dots> = length (filter (\<lambda>j. Q (take i xs ! j)) [0..<i])"
    using a by simp
  also have "filter (\<lambda>j. Q (take i xs ! j)) [0..<i] = filter (\<lambda>j. Q (xs ! j)) [0..<i]"
    by (rule filter_cong) auto
  finally show ?thesis by simp
qed

lemma fill_map_cache:
  "i + length vs \<le> length tte \<Longrightarrow> fill i vs tte (map f tte) encoded c = (r, c') \<Longrightarrow>
   c' t = (if t \<in> set (take (length vs) (drop i tte)) then Some (f t) else c t)"
proof (induction vs arbitrary: i encoded c)
  case Nil
  then show ?case by simp
next
  case (Cons v vs)
  from Cons.prems(1) have lt: "i < length tte" by simp
  with Cons.prems(2) have rec:
    "fill (Suc i) vs tte (map f tte) (encoded[v := Some (f (tte ! i))]) (c(tte ! i \<mapsto> f (tte ! i))) = (r, c')"
    by simp
  from lt have dr: "drop i tte = tte ! i # drop (Suc i) tte"
    by (simp add: Cons_nth_drop_Suc)
  from Cons.prems(1) have "c' t = (if t \<in> set (take (length vs) (drop (Suc i) tte)) then Some (f t)
      else (c(tte ! i \<mapsto> f (tte ! i))) t)"
    by (intro Cons.IH [OF _ rec]) simp
  then show ?case by (simp add: dr)
qed

lemma filter_split_at:
  assumes "i < length xs" "Q (xs ! i)"
  shows "filter Q xs = filter Q (take i xs) @ xs ! i # filter Q (drop (Suc i) xs)"
proof -
  from assms(1) have "take i xs @ xs ! i # drop (Suc i) xs = xs"
    by (rule id_take_nth_drop [symmetric])
  then have "filter Q xs = filter Q (take i xs @ xs ! i # drop (Suc i) xs)" by simp
  also have "\<dots> = filter Q (take i xs) @ xs ! i # filter Q (drop (Suc i) xs)"
    using assms(2) by simp
  finally show ?thesis .
qed

lemma filter_nth_rank:
  "i < length xs \<Longrightarrow> Q (xs ! i) \<Longrightarrow> filter Q xs ! length (filter Q (take i xs)) = xs ! i"
  by (simp add: filter_split_at [of i xs Q] nth_append)

lemma filter_rank_less:
  "i < length xs \<Longrightarrow> Q (xs ! i) \<Longrightarrow> length (filter Q (take i xs)) < length (filter Q xs)"
  by (simp add: filter_split_at [of i xs Q])

subsection \<open>What a call returns\<close>

lemma encodings_result:
  assumes "length (filter (\<lambda>t. cache e t = None) text_list)
             \<le> length (enc (filter (\<lambda>t. cache e t = None) text_list))"
  shows "\<exists>out e'. get_encodings enc e text_list = (Inr out, e') \<and>
           length out = length text_list \<and>
           (\<forall>i<length text_list. out ! i =
              (case cache e (text_list ! i) of
                 Some v \<Rightarrow> Some v
               | None \<Rightarrow> Some (enc (filter (\<lambda>t. cache e t = None) text_list)
                                 ! length (filter (\<lambda>t. cache e t = None) (take i text_list))))) \<and>
           encode_calls e' = encode_calls e @ [filter (\<lambda>t. cache e t = None) text_list]"
proof -
  define encoded where "encoded = map (cache e) text_list"
  define P where "P = (\<lambda>i. encoded ! i = None)"
  define vs where "vs = filter P [0..<length encoded]"
  define misses where "misses = filter (\<lambda>t. cache e t = None) text_list"
  have Pq: "\<And>i. i < length text_list \<Longrightarrow> P i = (cache e (text_list ! i) = None)"
    by (simp add: P_def encoded_def)
  have vs_alt: "vs = filter (\<lambda>i. cache e (text_list ! i) = None) [0..<length text_list]"
    unfolding vs_def by (rule filter_cong) (simp_all add: encoded_def Pq)
  have tte: "map (\<lambda>i. text_list ! i) vs = misses"
    unfolding vs_alt misses_def by (rule map_nth_filter_upt)
  have len: "length vs = length misses"
    using tte by (metis length_map)
  from assms len have "0 + length vs \<le> length (enc misses)"
    by (simp add: misses_def)
  from fill_returns [OF this] obtain out c' where
    fl: "fill 0 vs misses (enc misses) encoded (cache e) = (Inr out, c')" by blast
  have ge: "get_encodings enc e text_list =
        (Inr out, e\<lparr>cache := c', encode_calls := encode_calls e @ [misses]\<rparr>)"
    using fl tte unfolding get_encodings_def Let_def encoded_def [symmetric] P_def [symmetric]
      vs_def [symmetric] by simp
  have lo: "length out = length text_list"
    using fill_length_encoded [OF fl] by (simp add: encoded_def)
  have dv: "distinct vs" "\<forall>v\<in>set vs. v < length encoded"
    by (simp_all add: vs_def)
  have nth: "out ! i = (case cache e (text_list ! i) of Some v \<Rightarrow> Some v
               | None \<Rightarrow> Some (enc misses ! length (filter (\<lambda>t. cache e t = None) (take i text_list))))"
    if i: "i < length text_list" for i
  proof (cases "cache e (text_list ! i)")
    case (Some v)
    with i have "i \<notin> set vs" by (simp add: vs_alt)
    from fill_outside [OF fl this] i Some show ?thesis by (simp add: encoded_def)
  next
    case None
    let ?k = "length (filter (\<lambda>j. cache e (text_list ! j) = None) [0..<i])"
    from i None have at: "vs ! ?k = i"
      unfolding vs_alt by (intro filter_upt_nth) simp_all
    have "?k < length vs"
    proof -
      from i have "[0..<length text_list] = [0..<i] @ i # [Suc i..<length text_list]"
        using upt_add_eq_append [of 0 i "length text_list - i"] by (simp add: upt_conv_Cons)
      then have "vs = filter (\<lambda>j. cache e (text_list ! j) = None) [0..<i] @ i #
           filter (\<lambda>j. cache e (text_list ! j) = None) [Suc i..<length text_list]"
        using None by (simp add: vs_alt)
      then have "length vs = ?k + 1 + length (filter (\<lambda>j. cache e (text_list ! j) = None) [Suc i..<length text_list])"
        by (metis (no_types, lifting) length_append length_Cons add.assoc plus_1_eq_Suc add_Suc_right add_Suc)
      then show ?thesis by simp
    qed
    from fill_inside [OF fl dv this] at have "out ! i = Some (enc misses ! ?k)" by simp
    moreover from i have "?k = length (filter (\<lambda>t. cache e t = None) (take i text_list))"
      by (intro length_filter_upt_take) simp
    ultimately show ?thesis using None by simp
  qed
  from ge lo nth show ?thesis unfolding misses_def by simp
qed

lemma get_encodings_unfold:
  "get_encodings enc e text_list =
     (let misses = filter (\<lambda>t. cache e t = None) text_list;
          r = fill 0 (filter (\<lambda>i. cache e (text_list ! i) = None) [0..<length text_list])
                misses (enc misses) (map (cache e) text_list) (cache e)
      in (fst r, e\<lparr>cache := snd r, encode_calls := encode_calls e @ [misses]\<rparr>))"
proof -
  have vs: "filter (\<lambda>i. map (cache e) text_list ! i = None) [0..<length (map (cache e) text_list)]
        = filter (\<lambda>i. cache e (text_list ! i) = None) [0..<length text_list]"
    by (rule filter_cong) simp_all
  have tte: "map (\<lambda>i. text_list ! i) (filter (\<lambda>i. cache e (text_list ! i) = None) [0..<length text_list])
        = filter (\<lambda>t. cache e t = None) text_list"
    by (rule map_nth_filter_upt)
  show ?thesis
    unfolding get_encodings_def Let_def vs tte by (simp add: case_prod_unfold)
qed

lemma no_misses:
  "\<forall>t\<in>set text_list. cache e t \<noteq> None \<Longrightarrow>
   filter (\<lambda>t. cache e t = None) text_list = [] \<and>
   filter (\<lambda>i. cache e (text_list ! i) = None) [0..<length text_list] = []"
  by (auto simp: filter_empty_conv)

lemma encodings_of_hits:
  assumes "\<forall>t\<in>set text_list. cache e t \<noteq> None"
  shows "get_encodings enc e text_list =
           (Inr (map (cache e) text_list), e\<lparr>encode_calls := encode_calls e @ [[]]\<rparr>)"
  using no_misses [OF assms] by (simp add: get_encodings_unfold)

lemma get_encodings_map:
  "get_encodings (map f) e text_list =
     (Inr (map (\<lambda>t. case cache e t of Some v \<Rightarrow> Some v | None \<Rightarrow> Some (f t)) text_list),
      e\<lparr>cache := (\<lambda>t. if t \<in> set text_list \<and> cache e t = None then Some (f t) else cache e t),
        encode_calls := encode_calls e @ [filter (\<lambda>t. cache e t = None) text_list]\<rparr>)"
proof -
  define misses where "misses = filter (\<lambda>t. cache e t = None) text_list"
  define vs where "vs = filter (\<lambda>i. cache e (text_list ! i) = None) [0..<length text_list]"
  define r where "r = fill 0 vs misses (map f misses) (map (cache e) text_list) (cache e)"
  have ge: "get_encodings (map f) e text_list =
      (fst r, e\<lparr>cache := snd r, encode_calls := encode_calls e @ [misses]\<rparr>)"
    by (simp add: get_encodings_unfold Let_def r_def vs_def misses_def)
  have "length (filter (\<lambda>t. cache e t = None) text_list)
        \<le> length (map f (filter (\<lambda>t. cache e t = None) text_list))" by simp
  from encodings_result [where enc = "map f", OF this] obtain out e' where
    g: "get_encodings (map f) e text_list = (Inr out, e')"
    and l: "length out = length text_list"
    and n: "\<forall>i<length text_list. out ! i =
              (case cache e (text_list ! i) of
                 Some v \<Rightarrow> Some v
               | None \<Rightarrow> Some (map f misses ! length (filter (\<lambda>t. cache e t = None) (take i text_list))))"
    unfolding misses_def by blast
  have out: "out = map (\<lambda>t. case cache e t of Some v \<Rightarrow> Some v | None \<Rightarrow> Some (f t)) text_list"
  proof (rule nth_equalityI)
    show "length out = length (map (\<lambda>t. case cache e t of Some v \<Rightarrow> Some v | None \<Rightarrow> Some (f t)) text_list)"
      using l by simp
  next
    fix i assume "i < length out"
    with l have i: "i < length text_list" by simp
    show "out ! i = map (\<lambda>t. case cache e t of Some v \<Rightarrow> Some v | None \<Rightarrow> Some (f t)) text_list ! i"
    proof (cases "cache e (text_list ! i)")
      case (Some v)
      with n i show ?thesis by simp
    next
      case None
      let ?k = "length (filter (\<lambda>t. cache e t = None) (take i text_list))"
      from i None have mk: "misses ! ?k = text_list ! i"
        unfolding misses_def by (intro filter_nth_rank) simp_all
      from i None have "?k < length misses"
        unfolding misses_def by (intro filter_rank_less) simp_all
      with n i None mk show ?thesis by simp
    qed
  qed
  have fr: "fst r = Inr out" using g ge by simp
  have lv: "length vs = length misses"
  proof -
    have "map (\<lambda>i. text_list ! i) vs = misses"
      unfolding vs_def misses_def by (rule map_nth_filter_upt)
    then show ?thesis by (metis length_map)
  qed
  have c: "snd r t = (if t \<in> set text_list \<and> cache e t = None then Some (f t) else cache e t)" for t
  proof -
    have "fill 0 vs misses (map f misses) (map (cache e) text_list) (cache e) = (fst r, snd r)"
      by (simp add: r_def)
    from fill_map_cache [OF _ this, of t] lv
    have "snd r t = (if t \<in> set (take (length misses) (drop 0 misses)) then Some (f t) else cache e t)"
      by simp
    then show ?thesis by (simp add: misses_def)
  qed
  then have "snd r = (\<lambda>t. if t \<in> set text_list \<and> cache e t = None then Some (f t) else cache e t)"
    by (intro ext)
  with ge fr out show ?thesis by (simp add: misses_def)
qed

lemma get_encodings_cong:
  "enc (filter (\<lambda>t. cache e t = None) text_list) = enc' (filter (\<lambda>t. cache e t = None) text_list) \<Longrightarrow>
   get_encodings enc e text_list = get_encodings enc' e text_list"
  by (simp add: get_encodings_unfold Let_def)

subsection \<open>Order of the result and use of the cache\<close>

text \<open>
  Claim C8. Provided the encoder answers with at least one vector per text it was given,
  \<open>get_encodings\<close> returns normally a list as long as its input; position \<open>i\<close> holds the
  cached vector when the text at \<open>i\<close> is cached, and otherwise the encoder's vector at the
  rank of \<open>i\<close> among the misses. The encoder is called once, on the texts that are not
  cached, in their original order, so on no cached string.
\<close>

theorem get_encodings_order:
  assumes "length (filter (\<lambda>t. cache e t = None) text_list)
             \<le> length (enc (filter (\<lambda>t. cache e t = None) text_list))"
  shows "\<exists>out e'. get_encodings enc e text_list = (Inr out, e') \<and>
           length out = length text_list \<and>
           (\<forall>i<length text_list. out ! i =
              (case cache e (text_list ! i) of
                 Some v \<Rightarrow> Some v
               | None \<Rightarrow> Some (enc (filter (\<lambda>t. cache e t = None) text_list)
                                 ! length (filter (\<lambda>t. cache e t = None) (take i text_list))))) \<and>
           encode_calls e' = encode_calls e @ [filter (\<lambda>t. cache e t = None) text_list]"
  using assms by (rule encodings_result)

text \<open>The theorem on a list with one hit between two misses.\<close>

theorem get_encodings_order_witness:
  "length (filter (\<lambda>t. cache \<lparr>cache_path = ''p'', cache = [''b'' \<mapsto> (7::nat)], model = (), encode_calls = []\<rparr> t = None)
             [''a'', ''b'', ''cc''])
     \<le> length (map length (filter (\<lambda>t. cache \<lparr>cache_path = ''p'', cache = [''b'' \<mapsto> (7::nat)], model = (), encode_calls = []\<rparr> t = None)
             [''a'', ''b'', ''cc''])) \<and>
   (\<exists>out e'. get_encodings (map length)
        \<lparr>cache_path = ''p'', cache = [''b'' \<mapsto> (7::nat)], model = (), encode_calls = []\<rparr>
        [''a'', ''b'', ''cc''] = (Inr out, e') \<and>
      length out = 3 \<and> out ! 0 = Some 1 \<and> out ! 1 = Some 7 \<and> out ! 2 = Some 2 \<and>
      encode_calls e' = [[''a'', ''cc'']])"
proof -
  let ?e = "\<lparr>cache_path = ''p'', cache = [''b'' \<mapsto> (7::nat)], model = (), encode_calls = []\<rparr>"
  have h: "length (filter (\<lambda>t. cache ?e t = None) [''a'', ''b'', ''cc''])
     \<le> length (map length (filter (\<lambda>t. cache ?e t = None) [''a'', ''b'', ''cc'']))"
    by simp
  from get_encodings_order [where e = ?e and text_list = "[''a'', ''b'', ''cc'']" and enc = "map length", OF h] obtain out e' where
    g: "get_encodings (map length) ?e [''a'', ''b'', ''cc''] = (Inr out, e')"
    and l: "length out = length [''a'', ''b'', ''cc'']"
    and n: "\<forall>i<length [''a'', ''b'', ''cc'']. out ! i =
              (case cache ?e ([''a'', ''b'', ''cc''] ! i) of
                 Some v \<Rightarrow> Some v
               | None \<Rightarrow> Some (map length (filter (\<lambda>t. cache ?e t = None) [''a'', ''b'', ''cc''])
                                 ! length (filter (\<lambda>t. cache ?e t = None) (take i [''a'', ''b'', ''cc'']))))"
    and c: "encode_calls e' = encode_calls ?e @ [filter (\<lambda>t. cache ?e t = None) [''a'', ''b'', ''cc'']]"
    by blast
  from n have "out ! 0 = Some 1" "out ! 1 = Some 7" "out ! 2 = Some 2"
    by (simp_all add: numeral_2_eq_2)
  with g l c h show ?thesis by simp
qed

subsection \<open>Lists without misses\<close>

text \<open>
  Claim C4, as amended. The source calls \<open>self.encode\<close> on every call of \<open>get_encodings\<close>,
  with no test for an empty batch. When the text list is empty or every entry is cached,
  the call returns the cached vectors in order, leaves the cache as it is, and invokes the
  encoder exactly once, with the empty list.
\<close>

theorem get_encodings_all_hits:
  assumes "\<forall>t\<in>set text_list. cache e t \<noteq> None"
  shows "get_encodings enc e text_list =
           (Inr (map (cache e) text_list), e\<lparr>encode_calls := encode_calls e @ [[]]\<rparr>)"
  using assms by (rule encodings_of_hits)

text \<open>
  The theorem on a list that repeats one cached string.
\<close>

theorem get_encodings_all_hits_witness:
  "cache \<lparr>cache_path = ''p'', cache = [''b'' \<mapsto> (7::nat)], model = (), encode_calls = []\<rparr> ''b'' \<noteq> None \<and>
   get_encodings (map length) \<lparr>cache_path = ''p'', cache = [''b'' \<mapsto> (7::nat)], model = (), encode_calls = []\<rparr> [''b'', ''b''] =
     (Inr [Some 7, Some 7], \<lparr>cache_path = ''p'', cache = [''b'' \<mapsto> (7::nat)], model = (), encode_calls = [[]]\<rparr>)"
  using get_encodings_all_hits [where e = "\<lparr>cache_path = ''p'', cache = [''b'' \<mapsto> (7::nat)], model = (), encode_calls = []\<rparr>"
      and text_list = "[''b'', ''b'']" and enc = "map length"]
  by simp

text \<open>
  Against claim C4 as stated: on the empty text list, with an empty cache, the encoder is
  invoked, and its argument is the empty list.
\<close>

theorem get_encodings_empty_batch_counterexample:
  "encode_calls (snd (get_encodings (map length)
      \<lparr>cache_path = ''p'', cache = Map.empty, model = (), encode_calls = []\<rparr> [])) = [[]]"
  by (simp add: get_encodings_def)

subsection \<open>Calling twice\<close>

text \<open>
  Claim C5, as amended. Let the encoder answer the batch of misses with one vector per
  text, equal texts getting equal vectors. Then two calls of \<open>get_encodings\<close> in succession
  on the same list return the same vectors, one for each input; the second call encodes no
  text, but it does invoke the encoder once, with the empty list.
\<close>

theorem get_encodings_twice:
  assumes "enc (filter (\<lambda>t. cache e t = None) text_list)
             = map f (filter (\<lambda>t. cache e t = None) text_list)"
  shows "fst (get_encodings enc (snd (get_encodings enc e text_list)) text_list)
           = fst (get_encodings enc e text_list) \<and>
         (\<exists>out. fst (get_encodings enc e text_list) = Inr out \<and>
            length out = length text_list \<and> None \<notin> set out) \<and>
         encode_calls (snd (get_encodings enc (snd (get_encodings enc e text_list)) text_list))
           = encode_calls (snd (get_encodings enc e text_list)) @ [[]]"
proof -
  have first: "get_encodings enc e text_list = get_encodings (map f) e text_list"
    using assms by (rule get_encodings_cong)
  let ?e1 = "snd (get_encodings (map f) e text_list)"
  have c1: "cache ?e1 = (\<lambda>t. if t \<in> set text_list \<and> cache e t = None then Some (f t) else cache e t)"
    by (simp add: get_encodings_map)
  then have hits: "\<forall>t\<in>set text_list. cache ?e1 t \<noteq> None" by simp
  have "map (cache ?e1) text_list
      = map (\<lambda>t. case cache e t of Some v \<Rightarrow> Some v | None \<Rightarrow> Some (f t)) text_list"
    unfolding c1 by (rule map_cong) (auto split: option.splits)
  moreover have "None \<notin> set (map (\<lambda>t. case cache e t of Some v \<Rightarrow> Some v | None \<Rightarrow> Some (f t)) text_list)"
    by (auto split: option.splits)
  ultimately show ?thesis
    unfolding first using encodings_of_hits [OF hits, of enc]
    by (simp add: get_encodings_map [of f e])
qed

text \<open>The theorem on a list that repeats an uncached string.\<close>

theorem get_encodings_twice_witness:
  "map length (filter (\<lambda>t. cache \<lparr>cache_path = ''p'', cache = Map.empty, model = (), encode_calls = []\<rparr> t = None)
        [''a'', ''bb'', ''a''])
     = map length (filter (\<lambda>t. cache \<lparr>cache_path = ''p'', cache = Map.empty, model = (), encode_calls = []\<rparr> t = None)
        [''a'', ''bb'', ''a'']) \<and>
   fst (get_encodings (map length)
          \<lparr>cache_path = ''p'', cache = Map.empty, model = (), encode_calls = []\<rparr> [''a'', ''bb'', ''a''])
     = Inr [Some 1, Some 2, Some 1] \<and>
   fst (get_encodings (map length)
          (snd (get_encodings (map length)
             \<lparr>cache_path = ''p'', cache = Map.empty, model = (), encode_calls = []\<rparr> [''a'', ''bb'', ''a'']))
          [''a'', ''bb'', ''a''])
     = Inr [Some 1, Some 2, Some 1] \<and>
   encode_calls (snd (get_encodings (map length)
          (snd (get_encodings (map length)
             \<lparr>cache_path = ''p'', cache = Map.empty, model = (), encode_calls = []\<rparr> [''a'', ''bb'', ''a'']))
          [''a'', ''bb'', ''a'']))
     = [[''a'', ''bb'', ''a''], []]"
proof -
  note t = get_encodings_twice [where enc = "map length" and f = length
      and e = "\<lparr>cache_path = ''p'', cache = Map.empty, model = (), encode_calls = []\<rparr>"
      and text_list = "[''a'', ''bb'', ''a'']", OF refl]
  have v1: "fst (get_encodings (map length)
      \<lparr>cache_path = ''p'', cache = Map.empty, model = (), encode_calls = []\<rparr> [''a'', ''bb'', ''a''])
     = Inr [Some 1, Some 2, Some 1]"
    by (simp add: get_encodings_map)
  have v2: "encode_calls (snd (get_encodings (map length)
      \<lparr>cache_path = ''p'', cache = Map.empty, model = (), encode_calls = []\<rparr> [''a'', ''bb'', ''a'']))
     = [[''a'', ''bb'', ''a'']]"
    by (simp add: get_encodings_map)
  from t v1 v2 show ?thesis by simp
qed

text \<open>
  Against claim C5 as stated: after a first call on one uncached string, the second call
  on the same list adds an invocation of the encoder (on the empty list) to the record.
\<close>

theorem get_encodings_twice_counterexample:
  "encode_calls (snd (get_encodings (map length)
      (snd (get_encodings (map length)
         \<lparr>cache_path = ''p'', cache = Map.empty, model = (), encode_calls = []\<rparr> [''a'']))
      [''a''])) = [[''a''], []]"
  by (simp add: get_encodings_map)

subsection \<open>Clearing the cache\<close>

text \<open>
  Claim C3, as amended. \<open>clear_cache\<close> removes the backing file and nothing else: the
  embedder, its in-memory cache included, is as before and remains usable. A following
  \<open>get_encodings\<close> on a string that was cached before returns the cached vector and passes
  no text to the encoder (the encoder is invoked once, with the empty list).
\<close>

theorem clear_cache_keeps_memory:
  "clear_cache e fs = (e, fs(cache_path e := None)) \<and>
   (cache e t = Some v \<longrightarrow>
      get_encodings enc (fst (clear_cache e fs)) [t] =
        (Inr [Some v], e\<lparr>encode_calls := encode_calls e @ [[]]\<rparr>))"
proof -
  have fs: "fs (cache_path e) = None \<Longrightarrow> fs(cache_path e := None) = fs"
    by (rule ext) simp
  have cc: "clear_cache e fs = (e, fs(cache_path e := None))"
    using fs by (simp add: clear_cache_def)
  have "get_encodings enc e [t] = (Inr [Some v], e\<lparr>encode_calls := encode_calls e @ [[]]\<rparr>)"
    if "cache e t = Some v"
    using that encodings_of_hits [of "[t]" e enc] by simp
  with cc show ?thesis by simp
qed

text \<open>
  The theorem on an embedder whose cache and backing file hold one string.
\<close>

theorem clear_cache_keeps_memory_witness:
  "clear_cache \<lparr>cache_path = ''p'', cache = [''a'' \<mapsto> (7::nat)], model = (), encode_calls = []\<rparr>
      [''p'' \<mapsto> \<lparr>getsize = 9, pickle_load = Inr [''a'' \<mapsto> 7]\<rparr>]
     = (\<lparr>cache_path = ''p'', cache = [''a'' \<mapsto> 7], model = (), encode_calls = []\<rparr>, Map.empty) \<and>
   cache \<lparr>cache_path = ''p'', cache = [''a'' \<mapsto> (7::nat)], model = (), encode_calls = []\<rparr> ''a'' = Some 7 \<and>
   get_encodings (map length)
      (fst (clear_cache \<lparr>cache_path = ''p'', cache = [''a'' \<mapsto> (7::nat)], model = (), encode_calls = []\<rparr>
         [''p'' \<mapsto> \<lparr>getsize = 9, pickle_load = Inr [''a'' \<mapsto> 7]\<rparr>])) [''a'']
     = (Inr [Some 7], \<lparr>cache_path = ''p'', cache = [''a'' \<mapsto> 7], model = (), encode_calls = [[]]\<rparr>)"
  using clear_cache_keeps_memory [where e = "\<lparr>cache_path = ''p'', cache = [''a'' \<mapsto> (7::nat)], model = (), encode_calls = []\<rparr>"
      and fs = "[''p'' \<mapsto> \<lparr>getsize = 9, pickle_load = Inr [''a'' \<mapsto> 7]\<rparr>]"
      and t = "''a''" and v = 7 and enc = "map length"]
  by (simp add: clear_cache_def)

text \<open>
  Against claim C3 as stated: after \<open>clear_cache\<close> the string is still in the cache, and
  \<open>get_encodings\<close> on it makes no encoder call for that string.
\<close>

theorem clear_cache_counterexample:
  "cache (fst (clear_cache \<lparr>cache_path = ''p'', cache = [''a'' \<mapsto> (7::nat)], model = (), encode_calls = []\<rparr>
         [''p'' \<mapsto> \<lparr>getsize = 9, pickle_load = Inr [''a'' \<mapsto> 7]\<rparr>])) ''a'' = Some 7 \<and>
   encode_calls (snd (get_encodings (map length)
      (fst (clear_cache \<lparr>cache_path = ''p'', cache = [''a'' \<mapsto> (7::nat)], model = (), encode_calls = []\<rparr>
         [''p'' \<mapsto> \<lparr>getsize = 9, pickle_load = Inr [''a'' \<mapsto> 7]\<rparr>])) [''a''])) = [[]]"
  by (simp add: clear_cache_def get_encodings_map)

subsection \<open>Construction\<close>




section \<open>Properties of the role classifier\<close>

subsection \<open>Examples and labels\<close>

text \<open>
  Every label collected has a true role, so \<open>None\<close> is never among the labels and the
  branch of \<open>_get_queries_and_labels\<close> that raises is never taken.
\<close>

lemma query_examples_labels:
  "(ex, l) \<in> set (query_examples et q) \<Longrightarrow> truthy l"
  by (auto simp: query_examples_def)

lemma labels_not_None:
  "None \<notin> set (map snd (concat (map (query_examples et) queries)))"
proof
  assume "None \<in> set (map snd (concat (map (query_examples et) queries)))"
  then obtain ex q where "(ex, None) \<in> set (query_examples et q)" by auto
  from query_examples_labels [OF this] show False by (simp add: truthy_def)
qed

lemma get_queries_and_labels_returns:
  "get_queries_and_labels et query_tree =
     ([], Inr (if card (set (map snd (concat (map (query_examples et) (flatten_query_tree query_tree))))) = 1
               then ([], [])
               else (map fst (concat (map (query_examples et) (flatten_query_tree query_tree))),
                     map snd (concat (map (query_examples et) (flatten_query_tree query_tree))))))"
  using labels_not_None [of et "flatten_query_tree query_tree"]
  by (simp add: get_queries_and_labels_def Let_def)

lemma fit_fresh:
  assumes "\<not> prior_match (disk w) previous_model_path new_hash"
  shows "fit unpickle_error mdl model_fit from_model_config new_hash rc w query_tree
           previous_model_path =
     (case snd (get_queries_and_labels (entity_type rc) query_tree) of
        Inr (examples, labels) \<Rightarrow>
          if examples \<noteq> []
          then (None,
                rc\<lparr>roles := set labels, clf_model := Some (model_fit mdl examples labels),
                   config := Some (from_model_config (model_fit mdl examples labels)),
                   hash := Some new_hash, ready := True, dirty := True\<rparr>,
                w\<lparr>fit_calls := fit_calls w @ [(examples, labels)]\<rparr>)
          else (None, rc\<lparr>hash := Some new_hash, ready := True, dirty := True\<rparr>, w)
      | Inl err \<Rightarrow> (Some err, rc, w))"
  using assms
  by (simp add: fit_def get_queries_and_labels_returns Let_def)

lemma fit_short_circuit:
  assumes "\<not> prior_match (disk w) previous_model_path new_hash"
    and "card (set (map snd (concat (map (query_examples (entity_type rc))
            (flatten_query_tree query_tree))))) = 1"
  shows "fit unpickle_error mdl model_fit from_model_config new_hash rc w query_tree
           previous_model_path =
     (None, rc\<lparr>hash := Some new_hash, ready := True, dirty := True\<rparr>, w)"
  using assms(2) by (simp add: fit_fresh [OF assms(1)] get_queries_and_labels_returns)

subsection \<open>Dumping and loading\<close>



lemma make_folder_existing:
  "isdir ds folder \<Longrightarrow> make_folder d ds folder = Inr ds"
  by (simp add: make_folder_def)




text \<open>
  Claim C2. The training set has three entities of the classifier's type, with the roles
  \<open>origin\<close>, \<open>destination\<close> and none. The claim has \<open>fit\<close> raise after reporting the entity
  without a role. The code returns normally, reports nothing, and fits the underlying model
  on the two labelled entities: the unlabelled one was dropped by the test on the role
  before the check for \<open>None\<close> labels could see it.
\<close>

theorem fit_trains_past_unlabelled:
  "fst (fit (\<lambda>s. UnpicklingError) 0 demo_fit id ''G'' demo_classifier demo_world demo_tree None) = None \<and>
   fit_calls (snd (snd (fit (\<lambda>s. UnpicklingError) 0 demo_fit id ''G'' demo_classifier demo_world demo_tree None)))
     = [([(''fly from sfo to jfk via ord'', demo_entities, 0),
          (''fly from sfo to jfk via ord'', demo_entities, 1)],
         [Some ''origin'', Some ''destination''])] \<and>
   error_log (snd (snd (fit (\<lambda>s. UnpicklingError) 0 demo_fit id ''G'' demo_classifier demo_world demo_tree None))) = []"
proof -
  have g: "get_queries_and_labels ''city'' demo_tree =
      ([], Inr ([(''fly from sfo to jfk via ord'', demo_entities, 0),
                 (''fly from sfo to jfk via ord'', demo_entities, 1)],
                [Some ''origin'', Some ''destination'']))"
    by code_simp
  have n: "\<not> prior_match (disk demo_world) None ''G''"
    by (simp add: prior_match_def)
  have et: "entity_type demo_classifier = ''city''" by (simp add: demo_classifier_def)
  show ?thesis
    by (simp add: fit_fresh [OF n] et g) (simp add: demo_world_def)
qed

subsection \<open>The reuse gate\<close>




subsection \<open>A single label\<close>

text \<open>
  Claim C7. When the gate does not load a previous model and the labels of the eligible
  examples have exactly one distinct value, \<open>fit\<close> returns normally without invoking the
  underlying model's \<open>fit\<close>; it sets the hash, marks the classifier ready and dirty, and
  changes nothing else, so the model attribute is what it was (unset for a classifier that
  was never trained).
\<close>

theorem fit_single_label:
  assumes "\<not> prior_match (disk w) previous_model_path new_hash"
    and "card (set (map snd (concat (map (query_examples (entity_type rc))
            (flatten_query_tree query_tree))))) = 1"
  shows "fit unpickle_error mdl model_fit from_model_config new_hash rc w query_tree previous_model_path =
           (None, rc\<lparr>hash := Some new_hash, ready := True, dirty := True\<rparr>, w) \<and>
         fit_calls (snd (snd (fit unpickle_error mdl model_fit from_model_config new_hash rc w query_tree
            previous_model_path))) = fit_calls w \<and>
         clf_model (fst (snd (fit unpickle_error mdl model_fit from_model_config new_hash rc w query_tree
            previous_model_path))) = clf_model rc \<and>
         ready (fst (snd (fit unpickle_error mdl model_fit from_model_config new_hash rc w query_tree
            previous_model_path)))"
  by (simp add: fit_short_circuit [OF assms])

text \<open>
  The theorem on the untrained classifier and the training set with one role.
\<close>

theorem fit_single_label_witness:
  "\<not> prior_match (disk demo_world) None ''G'' \<and>
   card (set (map snd (concat (map (query_examples (entity_type demo_classifier))
      (flatten_query_tree single_label_tree))))) = 1 \<and>
   fit (\<lambda>s. UnpicklingError) 0 demo_fit id ''G'' demo_classifier demo_world single_label_tree None =
     (None, demo_classifier\<lparr>hash := Some ''G'', ready := True, dirty := True\<rparr>, demo_world) \<and>
   clf_model (fst (snd (fit (\<lambda>s. UnpicklingError) 0 demo_fit id ''G'' demo_classifier demo_world single_label_tree None)))
     = None"
proof -
  have n: "\<not> prior_match (disk demo_world) None ''G''"
    by (simp add: prior_match_def)
  have c: "card (set (map snd (concat (map (query_examples (entity_type demo_classifier))
      (flatten_query_tree single_label_tree))))) = 1"
    by code_simp
  from fit_single_label [OF n c, where mdl = 0 and model_fit = demo_fit and from_model_config = id
      and unpickle_error = "\<lambda>s. UnpicklingError"] n c show ?thesis
    by (simp add: demo_classifier_def)
qed

subsection \<open>Predicting without a model\<close>

text \<open>
  Claim C10. When the model attribute is unset, \<open>predict\<close> logs one error and returns
  \<open>None\<close> without raising. This is so in particular after a \<open>fit\<close> that took the
  single-label path: the classifier is then ready, and \<open>predict\<close> still returns \<open>None\<close>.
\<close>

theorem predict_without_model:
  assumes "clf_model rc = None"
  shows "predict model_predict rc w qry ents entity_index =
           (Inr None, w\<lparr>error_log := error_log w @
              [(''You must fit or load the model before running predict'', [])]\<rparr>) \<and>
         (\<not> prior_match (disk w) previous_model_path new_hash \<and>
          card (set (map snd (concat (map (query_examples (entity_type rc))
            (flatten_query_tree query_tree))))) = 1 \<longrightarrow>
          (\<exists>rc' w'.
             fit unpickle_error mdl model_fit from_model_config new_hash rc w query_tree previous_model_path
               = (None, rc', w') \<and>
             ready rc' \<and>
             predict model_predict rc' w' qry ents entity_index =
               (Inr None, w'\<lparr>error_log := error_log w' @
                  [(''You must fit or load the model before running predict'', [])]\<rparr>)))"
proof (intro conjI impI)
  show "predict model_predict rc w qry ents entity_index =
      (Inr None, w\<lparr>error_log := error_log w @
         [(''You must fit or load the model before running predict'', [])]\<rparr>)"
    using assms by (simp add: predict_def)
next
  assume a: "\<not> prior_match (disk w) previous_model_path new_hash \<and>
      card (set (map snd (concat (map (query_examples (entity_type rc))
        (flatten_query_tree query_tree))))) = 1"
  then have "fit unpickle_error mdl model_fit from_model_config new_hash rc w query_tree previous_model_path =
      (None, rc\<lparr>hash := Some new_hash, ready := True, dirty := True\<rparr>, w)"
    by (intro fit_short_circuit) simp_all
  then show "\<exists>rc' w'.
      fit unpickle_error mdl model_fit from_model_config new_hash rc w query_tree previous_model_path
        = (None, rc', w') \<and>
      ready rc' \<and>
      predict model_predict rc' w' qry ents entity_index =
        (Inr None, w'\<lparr>error_log := error_log w' @
           [(''You must fit or load the model before running predict'', [])]\<rparr>)"
    using assms by (simp add: predict_def)
qed

text \<open>
  The theorem on the untrained classifier and the training set with one role.
\<close>

theorem predict_without_model_witness:
  "clf_model demo_classifier = None \<and>
   predict (\<lambda>m ex. Inr ''origin'') demo_classifier demo_world ''fly to jfk'' [] 0 =
     (Inr None, demo_world\<lparr>error_log := error_log demo_world @
        [(''You must fit or load the model before running predict'', [])]\<rparr>) \<and>
   (\<exists>rc' w'.
      fit (\<lambda>s. UnpicklingError) 0 demo_fit id ''G'' demo_classifier demo_world single_label_tree None = (None, rc', w') \<and>
      ready rc' \<and>
      predict (\<lambda>m ex. Inr ''origin'') rc' w' ''fly to jfk'' [] 0 =
        (Inr None, w'\<lparr>error_log := error_log w' @
           [(''You must fit or load the model before running predict'', [])]\<rparr>))"
proof -
  have m: "clf_model demo_classifier = None" by (simp add: demo_classifier_def)
  have n: "\<not> prior_match (disk demo_world) None ''G''"
    by (simp add: prior_match_def)
  have c: "card (set (map snd (concat (map (query_examples (entity_type demo_classifier))
      (flatten_query_tree single_label_tree))))) = 1"
    by code_simp
  from predict_without_model [OF m, where model_predict = "\<lambda>m ex. Inr ''origin''"
      and w = demo_world and qry = "''fly to jfk''" and ents = "[]" and entity_index = 0
      and previous_model_path = None and new_hash = "''G''" and query_tree = single_label_tree
      and mdl = 0 and model_fit = demo_fit and from_model_config = id
      and unpickle_error = "\<lambda>s. UnpicklingError"] m n c
  show ?thesis by blast
qed

subsection \<open>The fingerprint and the order of the queries\<close>

text \<open>
  Claim C6. Two query trees whose flattened queries are the same up to order (the same
  queries, each as often) have the same query hash, whatever the hash function, because
  the queries are sorted before they are hashed; so the fingerprint of a configuration with
  either tree is the same.
\<close>

theorem fingerprint_order_independent:
  assumes "mset (flatten_query_tree t1) = mset (flatten_query_tree t2)"
  shows "get_queries_and_labels_hash hash_queries t1 = get_queries_and_labels_hash hash_queries t2 \<and>
         get_model_hash digest hash_queries model_config t1
           = get_model_hash digest hash_queries model_config t2"
proof -
  have "sort (flatten_query_tree t1) = sort (flatten_query_tree t2)"
    using assms by (intro properties_for_sort) simp_all
  then show ?thesis
    by (simp add: get_queries_and_labels_hash_def get_model_hash_def)
qed

text \<open>
  The theorem on two groupings of the queries \<open>a\<close>, \<open>b\<close>, \<open>c\<close>.
\<close>

theorem fingerprint_order_independent_witness:
  "mset (flatten_query_tree [(''d'', [(''i1'', [''b'', ''a'']), (''i2'', [''c''])])])
     = mset (flatten_query_tree [(''d'', [(''i2'', [''c'']), (''i1'', [''a'', ''b''])])]) \<and>
   get_queries_and_labels_hash concat [(''d'', [(''i1'', [''b'', ''a'']), (''i2'', [''c''])])]
     = get_queries_and_labels_hash concat [(''d'', [(''i2'', [''c'']), (''i1'', [''a'', ''b''])])] \<and>
   get_model_hash (\<lambda>c h. c @ h) concat ''svm''
        [(''d'', [(''i1'', [''b'', ''a'']), (''i2'', [''c''])])]
     = get_model_hash (\<lambda>c h. c @ h) concat ''svm''
        [(''d'', [(''i2'', [''c'']), (''i1'', [''a'', ''b''])])]"
proof -
  have h: "mset (flatten_query_tree [(''d'', [(''i1'', [''b'', ''a'']), (''i2'', [''c''])])])
     = mset (flatten_query_tree [(''d'', [(''i2'', [''c'']), (''i1'', [''a'', ''b''])])])"
    by (simp add: flatten_query_tree_def)
  from fingerprint_order_independent [OF h, of concat "\<lambda>c h. c @ h" "''svm''"] h
  show ?thesis by simp
qed

end
